theory Spec2Isabelle
  imports Complex_Main "HOL-Library.Sublist" "HOL-Library.Word" "HOL-Library.Log_Nat"
begin

section \<open>Strings and numbers as the script uses them\<close>

text \<open>
  A JavaScript string is a sequence of 16-bit code units. \<open>js\<close> writes a literal of
  the script, whose characters are ASCII, as code units.
\<close>

type_synonym code_unit = "16 word"

type_synonym jsstring = "code_unit list"

definition js :: "string \<Rightarrow> jsstring" where
  "js s = map (\<lambda>c. of_nat (of_char c)) s"

text \<open>
  The code units that \<open>String.prototype.trim\<close> and \<open>parseInt\<close> skip: the white space
  of ECMAScript (tab, vertical tab, form feed, U+FEFF and the space separators of
  Unicode: U+0020, U+00A0, U+1680, U+2000 to U+200A, U+202F, U+205F, U+3000) and its line
  terminators (line feed, carriage return, U+2028, U+2029).
\<close>

definition is_ws :: "code_unit \<Rightarrow> bool" where
  "is_ws c \<longleftrightarrow>
     c \<in> set [0x0009, 0x000A, 0x000B, 0x000C, 0x000D, 0x0020, 0x00A0, 0x1680,
              0x2000, 0x2001, 0x2002, 0x2003, 0x2004, 0x2005, 0x2006, 0x2007, 0x2008,
              0x2009, 0x200A, 0x2028, 0x2029, 0x202F, 0x205F, 0x3000, 0xFEFF]"

text \<open>\<open>text.trim()\<close>: white space removed at both ends.\<close>

definition trim :: "jsstring \<Rightarrow> jsstring" where
  "trim s = rev (dropWhile is_ws (rev (dropWhile is_ws s)))"

text \<open>
  \<open>text.split('\n')\<close>: the loop keeps the segment being read (reversed) and closes it at
  every line feed; the empty string gives one empty segment.
\<close>

fun split_from :: "jsstring \<Rightarrow> jsstring \<Rightarrow> jsstring list" where
  "split_from cur [] = [rev cur]"
| "split_from cur (c # cs) =
     (if c = 0x0A then rev cur # split_from [] cs else split_from (c # cur) cs)"

definition split_nl :: "jsstring \<Rightarrow> jsstring list" where
  "split_nl s = split_from [] s"

text \<open>\<open>lines.join('\n')\<close>.\<close>

fun join_nl :: "jsstring list \<Rightarrow> jsstring" where
  "join_nl [] = []"
| "join_nl [l] = l"
| "join_nl (l # m # ls) = l @ 0x0A # join_nl (m # ls)"

text \<open>\<open>Utils.isEmpty(text)\<close>: \<open>!text || !text.trim()\<close>; the empty string is the falsy string.\<close>

definition isEmpty :: "jsstring \<Rightarrow> bool" where
  "isEmpty text \<longleftrightarrow> text = [] \<or> trim text = []"

text \<open>\<open>LineManager.parseLines(text)\<close>.\<close>

definition parseLines :: "jsstring \<Rightarrow> jsstring list" where
  "parseLines text =
     (if isEmpty text then []
      else filter (\<lambda>line. length line > 0) (map (\<lambda>line. trim line) (split_nl text)))"

text \<open>
  A Number is a binary64 value, kept as the rational it denotes. \<open>binary64 x\<close> is the
  value nearest to \<open>x\<close>, a tie going to the even significand: \<open>exponent\<close> gives the
  \<open>e\<close> with \<open>2^e \<le> |x| < 2^(e+1)\<close>, the significand has 53 bits, and below
  \<open>2^-1022\<close> the spacing stays that of the subnormal numbers. Overflow to
  \<open>Infinity\<close>, at \<open>2^1024\<close>, is not modelled: the numbers of the script count lines.
\<close>

definition pow2 :: "int \<Rightarrow> rat" where
  "pow2 e = (if e \<ge> 0 then 2 ^ nat e else 1 / 2 ^ nat (- e))"

definition exponent :: "rat \<Rightarrow> int" where
  "exponent x =
     (if x \<ge> 1 then int (floorlog 2 (nat \<lfloor>x\<rfloor>)) - 1
      else - int (floorlog 2 (nat (\<lceil>1 / x\<rceil> - 1))))"

definition round_half_even :: "rat \<Rightarrow> int" where
  "round_half_even m =
     (let f = \<lfloor>m\<rfloor>; r = m - of_int f
      in if r < 1 / 2 then f else if r > 1 / 2 then f + 1 else if even f then f else f + 1)"

definition binary64 :: "rat \<Rightarrow> rat" where
  "binary64 x =
     (if x = 0 then 0
      else (let a = \<bar>x\<bar>; e = max (exponent a) (- 1022); ulp = pow2 (e - 52)
            in sgn x * of_int (round_half_even (a / ulp)) * ulp))"

text \<open>The operators \<open>/\<close> and \<open>*\<close> on Numbers: the exact result, rounded.\<close>

definition js_div :: "rat \<Rightarrow> rat \<Rightarrow> rat" where
  "js_div x y = binary64 (x / y)"

definition js_mul :: "rat \<Rightarrow> rat \<Rightarrow> rat" where
  "js_mul x y = binary64 (x * y)"

text \<open>
  \<open>Math.round(x)\<close>: the integer nearest to the Number \<open>x\<close>, a half rounded up.
\<close>

definition Math_round :: "rat \<Rightarrow> int" where
  "Math_round x = \<lfloor>x + 1 / 2\<rfloor>"

text \<open>\<open>Math.floor(x)\<close>.\<close>

definition Math_floor :: "rat \<Rightarrow> int" where
  "Math_floor x = \<lfloor>x\<rfloor>"

text \<open>
  \<open>parseInt(value)\<close> with no radix: leading white space is skipped, one sign is read,
  a prefix \<open>0x\<close> or \<open>0X\<close> selects radix 16, and the longest run of digits of the radix
  is the number, rounded to a Number; no digit at all gives \<open>NaN\<close>, modelled by
  \<open>None\<close>. A Number of such size is an integer.
\<close>

definition digit_val :: "code_unit \<Rightarrow> nat option" where
  "digit_val c =
     (let n = unat c in
      if 48 \<le> n \<and> n \<le> 57 then Some (n - 48)
      else if 97 \<le> n \<and> n \<le> 102 then Some (n - 87)
      else if 65 \<le> n \<and> n \<le> 70 then Some (n - 55)
      else None)"

definition is_digit :: "nat \<Rightarrow> code_unit \<Rightarrow> bool" where
  "is_digit R c = (case digit_val c of Some d \<Rightarrow> d < R | None \<Rightarrow> False)"

definition digits_value :: "nat \<Rightarrow> jsstring \<Rightarrow> int" where
  "digits_value R Z = foldl (\<lambda>a c. a * int R + int (the (digit_val c))) 0 Z"

definition parseInt :: "jsstring \<Rightarrow> int option" where
  "parseInt inputString =
     (let S = dropWhile is_ws inputString;
          sign = (if S \<noteq> [] \<and> hd S = 0x2D then - 1 else 1 :: int);
          S1 = (if S \<noteq> [] \<and> (hd S = 0x2B \<or> hd S = 0x2D) then tl S else S);
          hex = (length S1 \<ge> 2 \<and> hd S1 = 0x30 \<and> (S1 ! 1 = 0x78 \<or> S1 ! 1 = 0x58));
          R = (if hex then 16 else 10 :: nat);
          S2 = (if hex then drop 2 S1 else S1);
          Z = takeWhile (is_digit R) S2
      in if Z = [] then None
         else Some (\<lfloor>binary64 (of_int (sign * digits_value R Z))\<rfloor>))"

text \<open>\<open>message.includes(part)\<close>.\<close>

fun str_includes :: "jsstring \<Rightarrow> jsstring \<Rightarrow> bool" where
  "str_includes [] part = (part = [])"
| "str_includes (c # cs) part = (prefix part (c # cs) \<or> str_includes cs part)"

section \<open>Values of the persisted record\<close>

text \<open>
  What \<open>JSON.parse\<close> can return. Numbers are integers: the script writes an index and a
  time stamp.
\<close>

datatype json =
  JNull
| JBool bool
| JNum int
| JStr jsstring
| JArr "json list"
| JObj "(jsstring \<times> json) list"

text \<open>Truthiness, as \<open>&&\<close>, \<open>||\<close> and \<open>!\<close> test it.\<close>

fun truthy :: "json \<Rightarrow> bool" where
  "truthy JNull = False"
| "truthy (JBool b) = b"
| "truthy (JNum n) = (n \<noteq> 0)"
| "truthy (JStr s) = (s \<noteq> [])"
| "truthy (JArr xs) = True"
| "truthy (JObj kvs) = True"

text \<open>
  The property reads \<open>sessionData.lines\<close> and \<open>sessionData.index\<close>; \<open>None\<close> is
  \<open>undefined\<close>. Only an object has such a property. The script reads them behind
  \<open>sessionData &&\<close>, so never from \<open>null\<close>, where the read would throw.
\<close>

fun get_prop :: "json \<Rightarrow> jsstring \<Rightarrow> json option" where
  "get_prop (JObj kvs) k = map_of kvs k"
| "get_prop v k = None"

text \<open>\<open>x || 0\<close> for a property that may be undefined.\<close>

definition or_zero :: "json option \<Rightarrow> json" where
  "or_zero x = (case x of Some v \<Rightarrow> if truthy v then v else JNum 0 | None \<Rightarrow> JNum 0)"

text \<open>
  \<open>value.length > 0\<close> for a truthy value. An array and a string have their length; an
  object has the property or \<open>undefined\<close>, which is not greater than 0; a number and
  \<open>true\<close> have none. \<open>None\<close>: the property is no number and the comparison
  would coerce it, which is not modelled.
\<close>

fun length_positive :: "json \<Rightarrow> bool option" where
  "length_positive (JArr xs) = Some (length xs > 0)"
| "length_positive (JStr s) = Some (length s > 0)"
| "length_positive (JObj kvs) =
     (case map_of kvs (js ''length'') of
        None \<Rightarrow> Some False
      | Some (JNum n) \<Rightarrow> Some (n > 0)
      | Some v \<Rightarrow> None)"
| "length_positive v = Some False"

text \<open>
  The record format of the script: \<open>lines\<close> an array of strings, \<open>index\<close> a number.
\<close>

fun as_string :: "json \<Rightarrow> jsstring option" where
  "as_string (JStr s) = Some s"
| "as_string v = None"

fun as_lines :: "json \<Rightarrow> jsstring list option" where
  "as_lines (JArr xs) =
     (if list_all (\<lambda>x. as_string x \<noteq> None) xs then Some (map (\<lambda>x. the (as_string x)) xs)
      else None)"
| "as_lines v = None"

fun as_number :: "json \<Rightarrow> int option" where
  "as_number (JNum n) = Some n"
| "as_number v = None"

section \<open>The browser's local storage\<close>

text \<open>
  A stored text is kept by what \<open>JSON.parse\<close> makes of it: \<open>JSONText v\<close> is a text that
  parses to \<open>v\<close>, and \<open>JSON.stringify(v)\<close> is such a text; \<open>NotJSON t\<close> is a text \<open>t\<close>
  that \<open>JSON.parse\<close> rejects, the empty text among them. Only the empty text is falsy.
\<close>

datatype stored_text = NotJSON jsstring | JSONText json

definition text_truthy :: "stored_text \<Rightarrow> bool" where
  "text_truthy t \<longleftrightarrow> t \<noteq> NotJSON []"

definition JSON_parse :: "stored_text \<Rightarrow> json option" where
  "JSON_parse t = (case t of JSONText v \<Rightarrow> Some v | NotJSON s \<Rightarrow> None)"

definition JSON_stringify :: "json \<Rightarrow> stored_text" where
  "JSON_stringify v = JSONText v"

text \<open>\<open>Utils.safeJSONParse(str, fallback)\<close>: the \<open>SyntaxError\<close> is caught.\<close>

definition safeJSONParse :: "stored_text \<Rightarrow> json \<Rightarrow> json" where
  "safeJSONParse str fallback = (case JSON_parse str of Some v \<Rightarrow> v | None \<Rightarrow> fallback)"

text \<open>
  The storage holds its items and the exception the browser raises on access, if any:
  \<open>QuotaExceededError\<close> on a write when the quota is used up, \<open>SecurityError\<close> on every
  access when storage is blocked.
\<close>

datatype storage_error = QuotaExceededError | SecurityError

record localStorage =
  items :: "jsstring \<rightharpoonup> stored_text"
  fault :: "storage_error option"

definition getItem :: "localStorage \<Rightarrow> jsstring \<Rightarrow> storage_error + stored_text option" where
  "getItem ls k = (if fault ls = Some SecurityError then Inl SecurityError else Inr (items ls k))"

definition setItem :: "localStorage \<Rightarrow> jsstring \<Rightarrow> stored_text \<Rightarrow> storage_error + localStorage" where
  "setItem ls k v =
     (case fault ls of Some e \<Rightarrow> Inl e | None \<Rightarrow> Inr (ls\<lparr>items := (items ls)(k \<mapsto> v)\<rparr>))"

definition removeItem :: "localStorage \<Rightarrow> jsstring \<Rightarrow> storage_error + localStorage" where
  "removeItem ls k =
     (if fault ls = Some SecurityError then Inl SecurityError
      else Inr (ls\<lparr>items := (items ls)(k := None)\<rparr>))"

section \<open>StorageManager\<close>

definition STORAGE_KEYS_LINES :: jsstring where
  "STORAGE_KEYS_LINES = js ''savedLines''"

text \<open>\<open>clearSession()\<close>: a failure is logged and dropped.\<close>

definition clearSession :: "localStorage \<Rightarrow> localStorage" where
  "clearSession ls = (case removeItem ls STORAGE_KEYS_LINES of Inr ls' \<Rightarrow> ls' | Inl e \<Rightarrow> ls)"

definition handleStorageError :: "localStorage \<Rightarrow> storage_error \<Rightarrow> localStorage" where
  "handleStorageError ls e = (if e = QuotaExceededError then clearSession ls else ls)"

text \<open>\<open>saveSession(lines, index)\<close>; \<open>now\<close> is the reading of \<open>Date.now()\<close>.\<close>

definition saveSession :: "localStorage \<Rightarrow> jsstring list \<Rightarrow> int \<Rightarrow> int \<Rightarrow> localStorage" where
  "saveSession ls lns idx now =
     (let sessionData = JObj [(js ''lines'', JArr (map JStr lns)), (js ''index'', JNum idx),
                              (js ''timestamp'', JNum now)]
      in case setItem ls STORAGE_KEYS_LINES (JSON_stringify sessionData) of
           Inr ls' \<Rightarrow> ls'
         | Inl e \<Rightarrow> handleStorageError ls e)"

text \<open>What \<open>loadSession()\<close> returns: the object \<open>{ lines, index }\<close>.\<close>

datatype session_data = SessionData (sd_lines: json) (sd_index: json)

definition loadSession :: "localStorage \<Rightarrow> session_data" where
  "loadSession ls =
     (case getItem ls STORAGE_KEYS_LINES of
        Inl e \<Rightarrow> SessionData JNull (JNum 0)
      | Inr None \<Rightarrow> SessionData JNull (JNum 0)
      | Inr (Some savedData) \<Rightarrow>
          if \<not> text_truthy savedData then SessionData JNull (JNum 0)
          else (let sessionData = safeJSONParse savedData JNull in
            if truthy sessionData
               \<and> (case get_prop sessionData (js ''lines'') of Some l \<Rightarrow> truthy l | None \<Rightarrow> False)
            then SessionData (the (get_prop sessionData (js ''lines'')))
                             (or_zero (get_prop sessionData (js ''index'')))
            else SessionData JNull (JNum 0)))"

section \<open>ClipboardManager\<close>

text \<open>
  What the browser does with each mechanism is one value of the environment:
  whether \<open>navigator.clipboard\<close> exists in a secure context and what \<open>writeText\<close> does,
  whether \<open>ClipboardJS\<close> is defined and which event it fires, and what
  \<open>document.execCommand('copy')\<close> returns or throws.
\<close>

datatype attempt = Succeeds | Fails

datatype exec_result = ExecTrue | ExecFalse | ExecThrows jsstring

record clip_env =
  hasNativeSupport :: bool
  writeText :: attempt
  ClipboardJS :: "attempt option"
  execCommand :: exec_result

datatype mechanism = ByClipboardAPI | ByClipboardJS | ByExecCommand

datatype copy_error =
  NoTextToCopy
| ClipboardJSFailed
| ExecCommandFailed
| ExecCommandThrew jsstring

fun message :: "copy_error \<Rightarrow> jsstring" where
  "message NoTextToCopy = js ''No text to copy''"
| "message ClipboardJSFailed = js ''ClipboardJS failed: copy''"
| "message ExecCommandFailed = js ''execCommand copy failed''"
| "message (ExecCommandThrew m) = m"

definition copyWithClipboardJS :: "attempt \<Rightarrow> copy_error + mechanism" where
  "copyWithClipboardJS lib = (case lib of Succeeds \<Rightarrow> Inr ByClipboardJS | Fails \<Rightarrow> Inl ClipboardJSFailed)"

definition copyWithExecCommand :: "exec_result \<Rightarrow> copy_error + mechanism" where
  "copyWithExecCommand r =
     (case r of ExecTrue \<Rightarrow> Inr ByExecCommand
              | ExecFalse \<Rightarrow> Inl ExecCommandFailed
              | ExecThrows m \<Rightarrow> Inl (ExecCommandThrew m))"

text \<open>\<open>copy(text)\<close>: the error is the rejection, the mechanism is the one that wrote.\<close>

definition copy :: "clip_env \<Rightarrow> jsstring \<Rightarrow> copy_error + mechanism" where
  "copy ce text =
     (if text = [] then Inl NoTextToCopy
      else if hasNativeSupport ce \<and> writeText ce = Succeeds then Inr ByClipboardAPI
      else (case ClipboardJS ce of
              Some lib \<Rightarrow> copyWithClipboardJS lib
            | None \<Rightarrow> copyWithExecCommand (execCommand ce)))"

section \<open>LineManager\<close>

text \<open>
  The state: the fields \<open>lines\<close> and \<open>index\<close>, the storage, the system clipboard, and
  what the page shows (the text area, the buttons, the width of the progress bar in per
  cent, the two numbers of the status line). The page elements are taken to exist.
\<close>

record app =
  lines :: "jsstring list"
  index :: int
  storage :: localStorage
  clipboard :: jsstring
  inputText :: jsstring
  buttonsShown :: bool
  progressFill :: int
  status :: "(int \<times> nat) option"

text \<open>The event: what the clipboard does this time and the clock.\<close>

record env =
  clip :: clip_env
  now :: int

text \<open>The dialogs of the script, and what one action tells its user.\<close>

datatype notice =
  ENTER_TEXT
| LIST_ENDED
| NO_PREVIOUS
| INVALID_NUMBER
| COPY_ALL_SUCCESS
| CLIPBOARD_ERROR
| COPY_ALL_ERROR
| LINE_COPY_ERROR

datatype outcome = Copied jsstring | Dialog notice | Silent

text \<open>\<open>this.lines[i]\<close>: \<open>undefined\<close> (\<open>None\<close>) outside the array.\<close>

definition line_at :: "jsstring list \<Rightarrow> int \<Rightarrow> jsstring option" where
  "line_at ls i = (if 0 \<le> i \<and> i < int (length ls) then Some (ls ! nat i) else None)"

text \<open>\<open>Utils.isEmpty\<close> of such a value: \<open>undefined\<close> is falsy.\<close>

definition isEmpty_value :: "jsstring option \<Rightarrow> bool" where
  "isEmpty_value v = (case v of None \<Rightarrow> True | Some s \<Rightarrow> isEmpty s)"

text \<open>
  \<open>Math.round((currentCopied / totalLines) * 100)\<close>, the per cent of
  \<open>updateStatus\<close>.
\<close>

definition percent_of :: "int \<Rightarrow> nat \<Rightarrow> int" where
  "percent_of currentCopied totalLines =
     Math_round (js_mul (js_div (of_int currentCopied) (of_nat totalLines)) 100)"

text \<open>
  \<open>updateStatus()\<close>. A negative width is no valid style value: the browser drops the
  assignment and the bar keeps its width.
\<close>

definition updateStatus :: "app \<Rightarrow> app" where
  "updateStatus st =
     (if length (lines st) = 0 then st
      else (let currentCopied = index st; totalLines = length (lines st);
                percent = percent_of currentCopied totalLines
            in st\<lparr>progressFill := (if percent < 0 then progressFill st else percent),
                  status := Some (currentCopied, totalLines)\<rparr>))"

definition handleCopyError :: "copy_error \<Rightarrow> outcome" where
  "handleCopyError err =
     (if str_includes (message err) (js ''clipboard'') \<or> str_includes (message err) (js ''permission'')
      then Dialog CLIPBOARD_ERROR else Dialog COPY_ALL_ERROR)"

function skipEmptyLines :: "app \<Rightarrow> app" where
  "skipEmptyLines st =
     (if index st < int (length (lines st)) \<and> isEmpty_value (line_at (lines st) (index st))
      then skipEmptyLines (st\<lparr>index := index st + 1\<rparr>)
      else st)"
  by pat_completeness auto
termination
  by (relation "measure (\<lambda>st. nat (int (length (lines st)) - index st))") auto

text \<open>
  \<open>copyNext()\<close>. The line read is inside the array there; the read is written with
  \<open>line_at\<close> all the same, \<open>undefined\<close> being as falsy for \<open>copy\<close> as the empty string.
\<close>

definition copyNext :: "env \<Rightarrow> app \<Rightarrow> outcome \<times> app" where
  "copyNext e st0 =
     (let st = skipEmptyLines st0 in
      if index st \<ge> int (length (lines st)) then (Dialog LIST_ENDED, st)
      else (let currentLine = (case line_at (lines st) (index st) of Some l \<Rightarrow> l | None \<Rightarrow> []) in
        case copy (clip e) currentLine of
          Inr m \<Rightarrow>
            (let st1 = st\<lparr>clipboard := currentLine, index := index st + 1\<rparr>;
                 st2 = st1\<lparr>storage := saveSession (storage st1) (lines st1) (index st1) (now e)\<rparr>
             in (Copied currentLine, updateStatus st2))
        | Inl err \<Rightarrow> (handleCopyError err, st)))"

definition copyPrev :: "env \<Rightarrow> app \<Rightarrow> outcome \<times> app" where
  "copyPrev e st =
     (if index st \<le> 0 then (Dialog NO_PREVIOUS, st)
      else (let st1 = st\<lparr>index := max 0 (index st - 2)\<rparr>;
                st2 = st1\<lparr>storage := saveSession (storage st1) (lines st1) (index st1) (now e)\<rparr>
            in copyNext e st2))"

text \<open>What the number dialog resolves to; a rejected promise is \<open>PromptRejected\<close>.\<close>

datatype prompt_result = PromptRejected | PromptResult (isConfirmed: bool) (pvalue: jsstring)

definition isValidLineNumber :: "app \<Rightarrow> int option \<Rightarrow> bool" where
  "isValidLineNumber st lineNum =
     (case lineNum of None \<Rightarrow> False | Some n \<Rightarrow> n \<ge> 1 \<and> n \<le> int (length (lines st)))"

definition copyByNumber :: "env \<Rightarrow> prompt_result \<Rightarrow> app \<Rightarrow> outcome \<times> app" where
  "copyByNumber e result st =
     (if length (lines st) = 0 then (Silent, st)
      else (case result of
              PromptRejected \<Rightarrow> (Dialog LINE_COPY_ERROR, st)
            | PromptResult confirmed v \<Rightarrow>
                if \<not> confirmed \<or> v = [] then (Silent, st)
                else (let lineNum = parseInt v in
                  if \<not> isValidLineNumber st lineNum then (Dialog INVALID_NUMBER, st)
                  else (let st1 = st\<lparr>index := the lineNum - 1\<rparr>;
                            st2 = st1\<lparr>storage := saveSession (storage st1) (lines st1) (index st1) (now e)\<rparr>
                        in copyNext e st2))))"

definition copyAll :: "env \<Rightarrow> app \<Rightarrow> outcome \<times> app" where
  "copyAll e st =
     (if length (lines st) = 0 then (Silent, st)
      else (let allText = join_nl (lines st) in
        case copy (clip e) allText of
          Inr m \<Rightarrow> (Dialog COPY_ALL_SUCCESS, st\<lparr>clipboard := allText\<rparr>)
        | Inl err \<Rightarrow> (handleCopyError err, st)))"

definition resetAll :: "app \<Rightarrow> app" where
  "resetAll st =
     st\<lparr>inputText := [], status := None, progressFill := 0, buttonsShown := False,
        lines := [], index := 0, storage := clearSession (storage st)\<rparr>"

definition confirmInput :: "env \<Rightarrow> app \<Rightarrow> outcome \<times> app" where
  "confirmInput e st =
     (let text = trim (inputText st) in
      if isEmpty text then (Dialog ENTER_TEXT, st)
      else (let st1 = st\<lparr>lines := parseLines text\<rparr> in
        if length (lines st1) = 0 then (Dialog ENTER_TEXT, st1)
        else (let st2 = st1\<lparr>index := 0\<rparr>;
                  st3 = st2\<lparr>storage := saveSession (storage st2) (lines st2) (index st2) (now e)\<rparr>
              in (Silent, updateStatus (st3\<lparr>buttonsShown := True\<rparr>)))))"

text \<open>
  \<open>loadSessionDirect()\<close>. The state holds a list of strings and a number. A stored
  record whose \<open>lines\<close> is not an array of strings, or whose \<open>index\<close> is not a
  number, puts other values into the fields, which this state cannot hold: the result
  is \<open>None\<close> there, and \<open>Some\<close> of the new state everywhere else.
\<close>

definition loadSessionDirect :: "app \<Rightarrow> app option" where
  "loadSessionDirect st =
     (let sessionData = loadSession (storage st) in
      if \<not> truthy (sd_lines sessionData) then Some st
      else (case length_positive (sd_lines sessionData) of
              None \<Rightarrow> None
            | Some False \<Rightarrow> Some st
            | Some True \<Rightarrow>
                (case (as_lines (sd_lines sessionData),
                       as_number (or_zero (Some (sd_index sessionData)))) of
                   (Some lns, Some idx) \<Rightarrow>
                     Some (updateStatus (st\<lparr>lines := lns, index := idx,
                                            inputText := join_nl lns, buttonsShown := True\<rparr>))
                 | _ \<Rightarrow> None)))"

text \<open>Several \<open>copyNext()\<close> in a row, one event each, with what each one told the user.\<close>

fun copyNext_each :: "env list \<Rightarrow> app \<Rightarrow> outcome list \<times> app" where
  "copyNext_each [] st = ([], st)"
| "copyNext_each (e # es) st =
     (let (out, st1) = copyNext e st; (outs, st2) = copyNext_each es st1
      in (out # outs, st2))"

text \<open>
  Some mechanism of the environment writes a non-empty text: the clipboard API where it
  is supported, else ClipboardJS where it is defined, else \<open>execCommand\<close>.
\<close>

definition clipboard_works :: "clip_env \<Rightarrow> bool" where
  "clipboard_works ce \<longleftrightarrow>
     (hasNativeSupport ce \<and> writeText ce = Succeeds)
     \<or> ClipboardJS ce = Some Succeeds
     \<or> (ClipboardJS ce = None \<and> execCommand ce = ExecTrue)"

text \<open>
  The state the constructor builds on a page whose storage is empty: no lines, index 0.
\<close>

definition fresh_page :: app where
  "fresh_page =
     \<lparr>lines = [], index = 0, storage = \<lparr>items = Map.empty, fault = None\<rparr>, clipboard = [],
      inputText = [], buttonsShown = False, progressFill = 0, status = None\<rparr>"

text \<open>The invariant of the session: the index is an offset into the lines or their length.\<close>

definition cursor_in_range :: "app \<Rightarrow> bool" where
  "cursor_in_range st \<longleftrightarrow> 0 \<le> index st \<and> index st \<le> int (length (lines st))"

text \<open>A session of three lines with two of them copied, and an event whose clipboard works.\<close>

definition sample_session :: app where
  "sample_session = fresh_page\<lparr>lines := [js ''a'', js ''b'', js ''c''], index := 2\<rparr>"

definition sample_env :: env where
  "sample_env =
     \<lparr>clip = \<lparr>hasNativeSupport = True, writeText = Succeeds, ClipboardJS = None,
              execCommand = ExecFalse\<rparr>,
      now = 1000\<rparr>"

text \<open>
  A fresh page with the text \<open>a\n\nb\n\<close>, a line of U+00A0 and U+2003, and
  \<open>\n c \n\<close> typed in, and a page whose storage holds a record of one line with
  index 5.
\<close>

definition typed_page :: app where
  "typed_page =
     fresh_page\<lparr>inputText := (js ''a\<newline>\<newline>b\<newline>'') @ [0x00A0, 0x2003] @ (js ''\<newline> c \<newline>'')\<rparr>"

definition stale_page :: app where
  "stale_page =
     fresh_page\<lparr>storage :=
       \<lparr>items = [STORAGE_KEYS_LINES \<mapsto>
                   JSONText (JObj [(js ''lines'', JArr [JStr (js ''a'')]), (js ''index'', JNum 5),
                                   (js ''timestamp'', JNum 0)])],
        fault = None\<rparr>\<rparr>"

section \<open>The text splitter\<close>

lemma js_Nil_iff [simp]: "js s = [] \<longleftrightarrow> s = []"
  by (simp add: js_def)

lemma unat_code_unit_of_char: "unat (of_nat (of_char c) :: code_unit) = of_char c"
proof -
  have "(of_char c :: nat) < 256" by (cases c) (simp add: of_char_def)
  also have "(256 :: nat) < 2 ^ LENGTH(16)" by simp
  finally have "(of_char c :: nat) < 2 ^ LENGTH(16)" .
  then show ?thesis by (simp add: unat_of_nat)
qed

lemma js_eq_iff [simp]: "js s = js t \<longleftrightarrow> s = t"
proof
  assume "js s = js t"
  then have "map unat (js s) = map unat (js t)" by simp
  then have "map (of_char :: char \<Rightarrow> nat) s = map of_char t"
    by (simp add: js_def comp_def unat_code_unit_of_char)
  then show "s = t"
    by (simp add: inj_map_eq_map inj_on_def)
qed simp

lemma dropWhile_all_iff: "(\<forall>x \<in> set (dropWhile P xs). P x) \<longleftrightarrow> (\<forall>x \<in> set xs. P x)"
  by (induction xs) auto

lemma trim_Nil_iff: "trim s = [] \<longleftrightarrow> (\<forall>c \<in> set s. is_ws c)"
  by (simp add: trim_def dropWhile_eq_Nil_conv dropWhile_all_iff)

lemma isEmpty_iff: "isEmpty s \<longleftrightarrow> (\<forall>c \<in> set s. is_ws c)"
  by (auto simp: isEmpty_def trim_Nil_iff)

lemma dropWhile_hd_stable: "xs \<noteq> [] \<Longrightarrow> \<not> P (hd xs) \<Longrightarrow> dropWhile P xs = xs"
  by (cases xs) auto

lemma trim_ends:
  assumes "trim s \<noteq> []"
  shows "\<not> is_ws (hd (trim s))" and "\<not> is_ws (last (trim s))"
proof -
  let ?d = "dropWhile is_ws s"
  let ?r = "dropWhile is_ws (rev ?d)"
  from assms have r: "?r \<noteq> []" by (simp add: trim_def)
  have d: "?d \<noteq> []"
  proof
    assume e: "?d = []"
    have "dropWhile is_ws (rev []) = ([] :: jsstring)" by simp
    with e r show False by (simp only:)
  qed
  from r have "\<not> is_ws (hd ?r)" by (rule hd_dropWhile)
  then show "\<not> is_ws (last (trim s))" using r by (simp add: trim_def last_rev)
  from d have hd_d: "\<not> is_ws (hd ?d)" by (rule hd_dropWhile)
  have "rev ?d = takeWhile is_ws (rev ?d) @ ?r" by simp
  then have "?d = rev ?r @ rev (takeWhile is_ws (rev ?d))"
    by (metis rev_append rev_rev_ident)
  then have "hd ?d = hd (rev ?r)" using r by (metis hd_append2 rev_is_Nil_conv)
  with hd_d show "\<not> is_ws (hd (trim s))" by (simp add: trim_def)
qed

lemma trim_fixed:
  assumes "s \<noteq> []" "\<not> is_ws (hd s)" "\<not> is_ws (last s)"
  shows "trim s = s"
proof -
  have "dropWhile is_ws s = s" using assms by (simp add: dropWhile_hd_stable)
  moreover have "dropWhile is_ws (rev s) = rev s"
    using assms by (simp add: dropWhile_hd_stable hd_rev)
  ultimately show ?thesis by (simp add: trim_def)
qed

lemma trim_idem: "trim (trim s) = trim s"
proof (cases "trim s = []")
  case True
  then have "trim [] = []" by (simp add: trim_def)
  with True show ?thesis by simp
next
  case False
  then show ?thesis by (intro trim_fixed trim_ends)
qed

lemma set_split_from: "set (concat (split_from cur s)) \<subseteq> set cur \<union> set s"
  by (induction cur s rule: split_from.induct) auto

lemma split_nl_chars: "seg \<in> set (split_nl s) \<Longrightarrow> set seg \<subseteq> set s"
  using set_split_from [of "[]" s] by (auto simp: split_nl_def)

lemma split_from_not_Nil: "split_from cur s \<noteq> []"
  by (induction cur s rule: split_from.induct) auto

lemma join_nl_Cons: "ls \<noteq> [] \<Longrightarrow> join_nl (l # ls) = l @ 0x0A # join_nl ls"
  by (cases ls) auto

lemma join_split_from: "join_nl (split_from cur s) = rev cur @ s"
proof (induction cur s rule: split_from.induct)
  case (1 cur)
  then show ?case by simp
next
  case (2 cur c cs)
  show ?case
  proof (cases "c = 0x0A")
    case True
    with 2 show ?thesis by (simp add: join_nl_Cons split_from_not_Nil)
  next
    case False
    with 2 show ?thesis by simp
  qed
qed

lemma join_split_nl: "join_nl (split_nl s) = s"
  by (simp add: split_nl_def join_split_from)

lemma blank_text_no_lines:
  assumes "isEmpty text"
  shows "filter (\<lambda>l. l \<noteq> []) (map trim (split_nl text)) = []"
proof -
  have "trim seg = []" if "seg \<in> set (split_nl text)" for seg
    using that assms split_nl_chars [of seg "text"] by (auto simp: trim_Nil_iff isEmpty_iff)
  then show ?thesis by (auto simp: filter_empty_conv)
qed

lemma parseLines_eq: "parseLines text = filter (\<lambda>l. l \<noteq> []) (map trim (split_nl text))"
  by (simp add: parseLines_def blank_text_no_lines)

lemma parseLines_entry:
  assumes "l \<in> set (parseLines text)"
  shows "l \<noteq> []" and "trim l = l" and "\<not> isEmpty l"
proof -
  from assms obtain seg where l: "l = trim seg" and ne: "l \<noteq> []"
    by (auto simp: parseLines_eq)
  show "l \<noteq> []" by (rule ne)
  show t: "trim l = l" by (simp add: l trim_idem)
  show "\<not> isEmpty l" using ne t by (simp add: isEmpty_def)
qed

text \<open>
  Claim C5. For every input string, empty and blank ones included, \<open>parseLines\<close> returns
  the trimmed segments of the input split at line feeds, the empty ones dropped and the
  others in the order of the input (the segments joined by line feeds are the input
  again): no entry is empty or blank, every entry is trimmed, and an empty or blank
  input gives the empty list, not an error.
\<close>

theorem parseLines_splits_trims_filters:
  "(\<forall>l \<in> set (parseLines text). l \<noteq> [] \<and> \<not> isEmpty l \<and> trim l = l)
   \<and> parseLines text = filter (\<lambda>l. l \<noteq> []) (map trim (split_nl text))
   \<and> subseq (parseLines text) (map trim (split_nl text))
   \<and> join_nl (split_nl text) = text
   \<and> (isEmpty text \<longrightarrow> parseLines text = [])"
proof (intro conjI)
  show "\<forall>l \<in> set (parseLines text). l \<noteq> [] \<and> \<not> isEmpty l \<and> trim l = l"
    by (blast dest: parseLines_entry)
  show eq: "parseLines text = filter (\<lambda>l. l \<noteq> []) (map trim (split_nl text))"
    by (rule parseLines_eq)
  show "subseq (parseLines text) (map trim (split_nl text))"
    unfolding eq by (rule subseq_filter_left)
  show "join_nl (split_nl text) = text"
    by (rule join_split_nl)
  show "isEmpty text \<longrightarrow> parseLines text = []"
    by (simp add: parseLines_def)
qed

theorem parseLines_splits_trims_filters_witness:
  "parseLines (js ''a\<newline>\<newline>b\<newline> c \<newline>'')
     = [js ''a'', js ''b'', js ''c'']
   \<and> \<not> isEmpty (js ''a'') \<and> trim (js ''a'') = js ''a''
   \<and> \<not> isEmpty (js ''b'') \<and> trim (js ''b'') = js ''b''
   \<and> \<not> isEmpty (js ''c'') \<and> trim (js ''c'') = js ''c''
   \<and> isEmpty (js '' \<newline>'' @ [0x0009, 0x00A0, 0x2003, 0xFEFF])
   \<and> parseLines (js '' \<newline>'' @ [0x0009, 0x00A0, 0x2003, 0xFEFF]) = []
   \<and> parseLines (js ''a\<newline>'' @ [0x00A0] @ js ''\<newline>'' @ [0x3000] @ js ''b'' @ [0x2028])
       = [js ''a'', js ''b'']"
proof -
  have u: "parseLines (js ''a\<newline>'' @ [0x00A0] @ js ''\<newline>'' @ [0x3000] @ js ''b'' @ [0x2028])
       = [js ''a'', js ''b'']"
    by code_simp
  let ?t = "js ''a\<newline>\<newline>b\<newline> c \<newline>''"
  let ?b = "js '' \<newline>'' @ [0x0009, 0x00A0, 0x2003, 0xFEFF]"
  have v: "parseLines ?t = [js ''a'', js ''b'', js ''c'']"
    by code_simp
  have b: "isEmpty ?b"
    by code_simp
  from parseLines_splits_trims_filters [of "?t"]
  have "\<forall>l \<in> set (parseLines ?t). l \<noteq> [] \<and> \<not> isEmpty l \<and> trim l = l" by blast
  then have 1: "\<forall>l \<in> set [js ''a'', js ''b'', js ''c'']. l \<noteq> [] \<and> \<not> isEmpty l \<and> trim l = l"
    by (simp only: v)
  from b parseLines_splits_trims_filters [of "?b"] have 2: "parseLines ?b = []" by blast
  from 1 have 3: "\<not> isEmpty (js ''a'') \<and> trim (js ''a'') = (js ''a'') \<and> \<not> isEmpty (js ''b'') \<and> trim (js ''b'') = js ''b''
      \<and> \<not> isEmpty (js ''c'') \<and> trim (js ''c'') = js ''c''"
    by simp
  from v 3 b 2 u show ?thesis by blast
qed

section \<open>The clipboard adapter\<close>

lemma copy_cases:
  assumes "text \<noteq> []"
  shows "copy ce text =
     (if hasNativeSupport ce \<and> writeText ce = Succeeds then Inr ByClipboardAPI
      else if ClipboardJS ce = Some Succeeds then Inr ByClipboardJS
      else if ClipboardJS ce = Some Fails then Inl ClipboardJSFailed
      else if execCommand ce = ExecTrue then Inr ByExecCommand
      else if execCommand ce = ExecFalse then Inl ExecCommandFailed
      else Inl (ExecCommandThrew (case execCommand ce of ExecThrows m \<Rightarrow> m | _ \<Rightarrow> [])))"
proof (cases "ClipboardJS ce")
  case None
  with assms show ?thesis
    by (cases "execCommand ce") (simp_all add: copy_def copyWithExecCommand_def)
next
  case (Some lib)
  with assms show ?thesis
    by (cases lib) (simp_all add: copy_def copyWithClipboardJS_def)
qed

lemma not_Succeeds_iff: "a \<noteq> Succeeds \<longleftrightarrow> a = Fails"
  by (cases a) auto

lemma copy_succeeds_iff:
  "text \<noteq> [] \<Longrightarrow> (\<exists>m. copy ce text = Inr m) \<longleftrightarrow> clipboard_works ce"
  by (cases "ClipboardJS ce")
     (auto simp: copy_cases clipboard_works_def not_Succeeds_iff split: if_splits)

text \<open>
  Claim C9. \<open>copy\<close> rejects the empty text with its own error. A non-empty text
  goes to the mechanisms in order: the clipboard API where it is supported, and when that
  did not write, ClipboardJS where it is defined and \<open>execCommand\<close> where it is not.
  The first mechanism that writes ends the call with success; the call fails exactly
  when the clipboard API did not write and the fallback of the environment failed too.
\<close>

theorem copy_tries_mechanisms_in_order:
  "copy ce [] = Inl NoTextToCopy
   \<and> (text \<noteq> [] \<longrightarrow>
        (copy ce text = Inr ByClipboardAPI \<longleftrightarrow> hasNativeSupport ce \<and> writeText ce = Succeeds)
      \<and> (copy ce text = Inr ByClipboardJS \<longleftrightarrow>
           \<not> (hasNativeSupport ce \<and> writeText ce = Succeeds) \<and> ClipboardJS ce = Some Succeeds)
      \<and> (copy ce text = Inr ByExecCommand \<longleftrightarrow>
           \<not> (hasNativeSupport ce \<and> writeText ce = Succeeds) \<and> ClipboardJS ce = None
           \<and> execCommand ce = ExecTrue)
      \<and> ((\<exists>err. copy ce text = Inl err) \<longleftrightarrow>
           \<not> (hasNativeSupport ce \<and> writeText ce = Succeeds)
           \<and> (ClipboardJS ce = Some Fails
               \<or> ClipboardJS ce = None \<and> execCommand ce \<noteq> ExecTrue))
      \<and> copy ce text \<noteq> Inl NoTextToCopy)"
proof -
  have e: "copy ce [] = Inl NoTextToCopy" by (simp add: copy_def)
  have "ClipboardJS ce = None \<or> ClipboardJS ce = Some Succeeds \<or> ClipboardJS ce = Some Fails"
    by (cases "ClipboardJS ce") (auto intro: attempt.exhaust)
  then have "text \<noteq> [] \<longrightarrow>
        (copy ce text = Inr ByClipboardAPI \<longleftrightarrow> hasNativeSupport ce \<and> writeText ce = Succeeds)
      \<and> (copy ce text = Inr ByClipboardJS \<longleftrightarrow>
           \<not> (hasNativeSupport ce \<and> writeText ce = Succeeds) \<and> ClipboardJS ce = Some Succeeds)
      \<and> (copy ce text = Inr ByExecCommand \<longleftrightarrow>
           \<not> (hasNativeSupport ce \<and> writeText ce = Succeeds) \<and> ClipboardJS ce = None
           \<and> execCommand ce = ExecTrue)
      \<and> ((\<exists>err. copy ce text = Inl err) \<longleftrightarrow>
           \<not> (hasNativeSupport ce \<and> writeText ce = Succeeds)
           \<and> (ClipboardJS ce = Some Fails
               \<or> ClipboardJS ce = None \<and> execCommand ce \<noteq> ExecTrue))
      \<and> copy ce text \<noteq> Inl NoTextToCopy"
    by (auto simp: copy_cases)
  with e show ?thesis by simp
qed

theorem copy_tries_mechanisms_in_order_witness:
  "js ''line'' \<noteq> []
   \<and> copy \<lparr>hasNativeSupport = True, writeText = Fails, ClipboardJS = None,
            execCommand = ExecTrue\<rparr> (js ''line'') = Inr ByExecCommand
   \<and> (\<exists>err. copy \<lparr>hasNativeSupport = True, writeText = Fails, ClipboardJS = Some Fails,
            execCommand = ExecTrue\<rparr> (js ''line'') = Inl err)"
  using copy_tries_mechanisms_in_order
      [of "\<lparr>hasNativeSupport = True, writeText = Fails, ClipboardJS = None,
            execCommand = ExecTrue\<rparr>" "js ''line''"]
    copy_tries_mechanisms_in_order
      [of "\<lparr>hasNativeSupport = True, writeText = Fails, ClipboardJS = Some Fails,
            execCommand = ExecTrue\<rparr>" "js ''line''"]
  by simp

section \<open>The persistence adapter\<close>

lemma loadSession_cases:
  "loadSession ls =
     (if fault ls = Some SecurityError then SessionData JNull (JNum 0)
      else (case items ls STORAGE_KEYS_LINES of
              None \<Rightarrow> SessionData JNull (JNum 0)
            | Some (NotJSON t) \<Rightarrow> SessionData JNull (JNum 0)
            | Some (JSONText v) \<Rightarrow>
                (case get_prop v (js ''lines'') of
                   None \<Rightarrow> SessionData JNull (JNum 0)
                 | Some l \<Rightarrow> if truthy v \<and> truthy l
                             then SessionData l (or_zero (get_prop v (js ''index'')))
                             else SessionData JNull (JNum 0))))"
  by (auto simp: loadSession_def getItem_def text_truthy_def safeJSONParse_def JSON_parse_def
      split: option.splits stored_text.splits)

text \<open>
  Claim C8. Whatever the storage key holds, \<open>loadSession\<close> returns an object and
  throws nothing; when the key is absent, or holds a text that is not JSON, or holds JSON
  with no \<open>lines\<close> property, the object is \<open>{ lines: null, index: 0 }\<close>.
\<close>

theorem loadSession_tolerates_missing_or_malformed:
  "items ls STORAGE_KEYS_LINES = None
   \<or> (\<exists>t. items ls STORAGE_KEYS_LINES = Some (NotJSON t))
   \<or> (\<exists>v. items ls STORAGE_KEYS_LINES = Some (JSONText v) \<and> get_prop v (js ''lines'') = None)
   \<Longrightarrow> loadSession ls = SessionData JNull (JNum 0)"
  by (auto simp: loadSession_cases)

theorem loadSession_tolerates_missing_or_malformed_witness:
  "loadSession \<lparr>items = Map.empty, fault = None\<rparr> = SessionData JNull (JNum 0)
   \<and> loadSession \<lparr>items = [STORAGE_KEYS_LINES \<mapsto> NotJSON (js ''{lines'')], fault = None\<rparr>
       = SessionData JNull (JNum 0)
   \<and> loadSession \<lparr>items = [STORAGE_KEYS_LINES \<mapsto> JSONText (JObj [(js ''index'', JNum 3)])],
                    fault = None\<rparr>
       = SessionData JNull (JNum 0)"
  using
    loadSession_tolerates_missing_or_malformed
      [of "\<lparr>items = Map.empty, fault = None\<rparr>"]
    loadSession_tolerates_missing_or_malformed
      [of "\<lparr>items = [STORAGE_KEYS_LINES \<mapsto> NotJSON (js ''{lines'')], fault = None\<rparr>"]
    loadSession_tolerates_missing_or_malformed
      [of "\<lparr>items = [STORAGE_KEYS_LINES \<mapsto> JSONText (JObj [(js ''index'', JNum 3)])],
            fault = None\<rparr>"]
  by simp

lemma as_lines_strings: "as_lines (JArr (map JStr L)) = Some L"
  by (induction L) (auto simp: list_all_iff comp_def)

text \<open>
  Claim C7. When the write succeeds, \<open>loadSession\<close> right after
  \<open>saveSession(L, i)\<close> returns \<open>{ lines: L, index: i }\<close>, for every list of
  strings \<open>L\<close> and every integer \<open>i\<close>.
\<close>

theorem saveSession_loadSession_roundtrip:
  "fault ls = None \<Longrightarrow>
     loadSession (saveSession ls L i t) = SessionData (JArr (map JStr L)) (JNum i)
     \<and> as_lines (sd_lines (loadSession (saveSession ls L i t))) = Some L
     \<and> as_number (sd_index (loadSession (saveSession ls L i t))) = Some i"
proof -
  assume f: "fault ls = None"
  have "loadSession (saveSession ls L i t) = SessionData (JArr (map JStr L)) (JNum i)"
    using f by (simp add: loadSession_cases saveSession_def setItem_def JSON_stringify_def
        STORAGE_KEYS_LINES_def or_zero_def)
  then show ?thesis by (simp only: session_data.sel as_lines_strings as_number.simps simp_thms)
qed


theorem saveSession_loadSession_roundtrip_witness:
  "fault \<lparr>items = Map.empty, fault = None\<rparr> = None
   \<and> loadSession (saveSession \<lparr>items = Map.empty, fault = None\<rparr> [js ''a'', js ''b''] 1 1000)
       = SessionData (JArr [JStr (js ''a''), JStr (js ''b'')]) (JNum 1)"
  using saveSession_loadSession_roundtrip
      [of "\<lparr>items = Map.empty, fault = None\<rparr>" "[js ''a'', js ''b'']" 1 1000]
  by simp

lemma saveSession_quota_exceeded:
  assumes "fault ls = Some QuotaExceededError"
  shows "items (saveSession ls L i t) STORAGE_KEYS_LINES = None"
    and "loadSession (saveSession ls L i t) = SessionData JNull (JNum 0)"
proof -
  from assms have s: "saveSession ls L i t = ls\<lparr>items := (items ls)(STORAGE_KEYS_LINES := None)\<rparr>"
    by (simp add: saveSession_def setItem_def handleStorageError_def clearSession_def
        removeItem_def)
  show "items (saveSession ls L i t) STORAGE_KEYS_LINES = None"
    unfolding s by simp
  show "loadSession (saveSession ls L i t) = SessionData JNull (JNum 0)"
    unfolding s using assms by (simp add: loadSession_cases)
qed

section \<open>The line cursor\<close>

lemma updateStatus_keeps:
  "lines (updateStatus st) = lines st"
  "index (updateStatus st) = index st"
  "storage (updateStatus st) = storage st"
  "clipboard (updateStatus st) = clipboard st"
  by (simp_all add: updateStatus_def Let_def)

declare skipEmptyLines.simps [simp del]

lemma skipEmptyLines_stops:
  "\<not> (index st < int (length (lines st)) \<and> isEmpty_value (line_at (lines st) (index st)))
   \<Longrightarrow> skipEmptyLines st = st"
  by (subst skipEmptyLines.simps) auto

lemma skipEmptyLines_lines: "lines (skipEmptyLines st) = lines st"
proof (induction st rule: skipEmptyLines.induct)
  case (1 st)
  show ?case
  proof (cases "index st < int (length (lines st)) \<and> isEmpty_value (line_at (lines st) (index st))")
    case True
    then have "skipEmptyLines st = skipEmptyLines (st\<lparr>index := index st + 1\<rparr>)"
      by (subst skipEmptyLines.simps) auto
    with 1 True show ?thesis by simp
  next
    case False
    then show ?thesis by (simp add: skipEmptyLines_stops)
  qed
qed

lemma skipEmptyLines_in_range:
  "cursor_in_range st \<Longrightarrow> cursor_in_range (skipEmptyLines st)"
proof (induction st rule: skipEmptyLines.induct)
  case (1 st)
  show ?case
  proof (cases "index st < int (length (lines st)) \<and> isEmpty_value (line_at (lines st) (index st))")
    case True
    then have eq: "skipEmptyLines st = skipEmptyLines (st\<lparr>index := index st + 1\<rparr>)"
      by (subst skipEmptyLines.simps) auto
    from True "1.prems" have "cursor_in_range (st\<lparr>index := index st + 1\<rparr>)"
      by (simp add: cursor_in_range_def)
    with 1 True eq show ?thesis by simp
  next
    case False
    with "1.prems" show ?thesis by (simp add: skipEmptyLines_stops)
  qed
qed

lemma line_at_inside:
  "0 \<le> i \<Longrightarrow> i < int (length ls) \<Longrightarrow> line_at ls i = Some (ls ! nat i)"
  by (simp add: line_at_def)

lemma copyNext_exhausted:
  "index st \<ge> int (length (lines st)) \<Longrightarrow> copyNext e st = (Dialog LIST_ENDED, st)"
  by (simp add: copyNext_def skipEmptyLines_stops)

lemma copyNext_copies:
  assumes "0 \<le> index st" "index st < int (length (lines st))"
    and "\<not> isEmpty (lines st ! nat (index st))"
    and "clipboard_works (clip e)"
  shows "copyNext e st =
     (Copied (lines st ! nat (index st)),
      updateStatus (st\<lparr>clipboard := lines st ! nat (index st), index := index st + 1,
          storage := saveSession (storage st) (lines st) (index st + 1) (now e)\<rparr>))"
proof -
  let ?l = "lines st ! nat (index st)"
  from assms have at: "line_at (lines st) (index st) = Some ?l" by (simp add: line_at_inside)
  with assms have skip: "skipEmptyLines st = st"
    by (simp add: skipEmptyLines_stops isEmpty_value_def)
  from assms have ne: "?l \<noteq> []" by (auto simp: isEmpty_def)
  with assms obtain m where "copy (clip e) ?l = Inr m"
    using copy_succeeds_iff [of ?l "clip e"] by blast
  with skip at assms show ?thesis by (simp add: copyNext_def Let_def)
qed

lemma copyNext_fails:
  assumes "0 \<le> index st" "index st < int (length (lines st))"
    and "\<not> isEmpty (lines st ! nat (index st))"
    and "\<not> clipboard_works (clip e)"
  shows "snd (copyNext e st) = st"
proof -
  let ?l = "lines st ! nat (index st)"
  from assms have at: "line_at (lines st) (index st) = Some ?l" by (simp add: line_at_inside)
  with assms have skip: "skipEmptyLines st = st"
    by (simp add: skipEmptyLines_stops isEmpty_value_def)
  from assms have ne: "?l \<noteq> []" by (auto simp: isEmpty_def)
  with assms obtain err where "copy (clip e) ?l = Inl err"
    using copy_succeeds_iff [of ?l "clip e"] by (cases "copy (clip e) ?l") auto
  with skip at assms show ?thesis by (simp add: copyNext_def Let_def)
qed

text \<open>
  Claim C4. \<open>copyPrev\<close> shows the no-previous notice and changes nothing when the index
  is at most 0. Otherwise it sets the index to \<open>max(0, index - 2)\<close>, saves, and runs
  \<open>copyNext\<close> from there: with the index inside the lines, that line not blank and the
  clipboard working, the line at \<open>max(0, index - 2)\<close> is copied and the index ends one
  after it. From index 2 that is the first line again.
\<close>

theorem copyPrev_steps_back_two:
  "(index st \<le> 0 \<longrightarrow> copyPrev e st = (Dialog NO_PREVIOUS, st))
   \<and> (0 < index st \<longrightarrow>
        copyPrev e st =
          copyNext e (st\<lparr>index := max 0 (index st - 2),
                         storage := saveSession (storage st) (lines st) (max 0 (index st - 2)) (now e)\<rparr>))
   \<and> (0 < index st \<and> index st \<le> int (length (lines st))
        \<and> \<not> isEmpty (lines st ! nat (max 0 (index st - 2))) \<and> clipboard_works (clip e) \<longrightarrow>
        fst (copyPrev e st) = Copied (lines st ! nat (max 0 (index st - 2)))
        \<and> index (snd (copyPrev e st)) = max 0 (index st - 2) + 1
        \<and> lines (snd (copyPrev e st)) = lines st)"
proof (intro conjI impI)
  show "copyPrev e st = (Dialog NO_PREVIOUS, st)" if "index st \<le> 0"
    using that by (simp add: copyPrev_def)
  let ?st = "st\<lparr>index := max 0 (index st - 2),
               storage := saveSession (storage st) (lines st) (max 0 (index st - 2)) (now e)\<rparr>"
  show eq: "copyPrev e st = copyNext e ?st" if "0 < index st"
    using that by (simp add: copyPrev_def Let_def)
  assume a: "0 < index st \<and> index st \<le> int (length (lines st))
        \<and> \<not> isEmpty (lines st ! nat (max 0 (index st - 2))) \<and> clipboard_works (clip e)"
  then have "copyNext e ?st =
     (Copied (lines ?st ! nat (index ?st)),
      updateStatus (?st\<lparr>clipboard := lines ?st ! nat (index ?st), index := index ?st + 1,
          storage := saveSession (storage ?st) (lines ?st) (index ?st + 1) (now e)\<rparr>))"
    by (intro copyNext_copies) auto
  with a eq have c: "copyPrev e st =
     (Copied (lines ?st ! nat (index ?st)),
      updateStatus (?st\<lparr>clipboard := lines ?st ! nat (index ?st), index := index ?st + 1,
          storage := saveSession (storage ?st) (lines ?st) (index ?st + 1) (now e)\<rparr>))"
    by simp
  show "fst (copyPrev e st) = Copied (lines st ! nat (max 0 (index st - 2)))"
    unfolding c by simp
  show "index (snd (copyPrev e st)) = max 0 (index st - 2) + 1"
    unfolding c by (simp add: updateStatus_keeps)
  show "lines (snd (copyPrev e st)) = lines st"
    unfolding c by (simp add: updateStatus_keeps)
qed

lemma sample_facts:
  "lines sample_session = [js ''a'', js ''b'', js ''c'']"
  "index sample_session = 2"
  "clipboard_works (clip sample_env)"
  "now sample_env = 1000"
  by (simp_all add: sample_session_def sample_env_def fresh_page_def clipboard_works_def)

lemma sample_lines_not_blank:
  "\<not> isEmpty (js ''a'')" "\<not> isEmpty (js ''b'')" "\<not> isEmpty (js ''c'')"
  by code_simp+

theorem copyPrev_steps_back_two_witness:
  "0 < index sample_session \<and> index sample_session \<le> int (length (lines sample_session))
   \<and> \<not> isEmpty (lines sample_session ! nat (max 0 (index sample_session - 2)))
   \<and> clipboard_works (clip sample_env)
   \<and> fst (copyPrev sample_env sample_session) = Copied (js ''a'')
   \<and> index (snd (copyPrev sample_env sample_session)) = 1
   \<and> index (sample_session\<lparr>index := 0\<rparr>) \<le> 0
   \<and> copyPrev sample_env (sample_session\<lparr>index := 0\<rparr>)
       = (Dialog NO_PREVIOUS, sample_session\<lparr>index := 0\<rparr>)"
proof -
  have h: "0 < index sample_session \<and> index sample_session \<le> int (length (lines sample_session))
      \<and> \<not> isEmpty (lines sample_session ! nat (max 0 (index sample_session - 2)))
      \<and> clipboard_works (clip sample_env)"
    by (simp add: sample_facts sample_lines_not_blank)
  with copyPrev_steps_back_two [of sample_session sample_env]
  have "fst (copyPrev sample_env sample_session)
          = Copied (lines sample_session ! nat (max 0 (index sample_session - 2)))
      \<and> index (snd (copyPrev sample_env sample_session)) = max 0 (index sample_session - 2) + 1"
    by blast
  then have r: "fst (copyPrev sample_env sample_session) = Copied (js ''a'')
      \<and> index (snd (copyPrev sample_env sample_session)) = 1"
    by (simp add: sample_facts)
  have z: "index (sample_session\<lparr>index := 0\<rparr>) \<le> 0" by simp
  with copyPrev_steps_back_two [of "sample_session\<lparr>index := 0\<rparr>" sample_env]
  have "copyPrev sample_env (sample_session\<lparr>index := 0\<rparr>)
       = (Dialog NO_PREVIOUS, sample_session\<lparr>index := 0\<rparr>)"
    by blast
  with h r z show ?thesis by blast
qed




lemma copyNext_each_run:
  assumes "cursor_in_range st"
    and "\<forall>l \<in> set (drop (nat (index st)) (lines st)). \<not> isEmpty l"
    and "\<forall>e \<in> set es. clipboard_works (clip e)"
    and "length es \<le> length (lines st) - nat (index st)"
  shows "fst (copyNext_each es st) = map Copied (take (length es) (drop (nat (index st)) (lines st)))
       \<and> lines (snd (copyNext_each es st)) = lines st
       \<and> index (snd (copyNext_each es st)) = index st + int (length es)"
  using assms
proof (induction es arbitrary: st)
  case Nil
  then show ?case by simp
next
  case (Cons e es)
  let ?i = "nat (index st)"
  let ?l = "lines st ! ?i"
  from Cons.prems have i: "0 \<le> index st" "index st < int (length (lines st))" "?i < length (lines st)"
    by (auto simp: cursor_in_range_def)
  then have d: "drop ?i (lines st) = ?l # drop (Suc ?i) (lines st)"
    by (simp add: Cons_nth_drop_Suc)
  with Cons.prems have nb: "\<not> isEmpty ?l" by simp
  let ?st1 = "updateStatus (st\<lparr>clipboard := ?l, index := index st + 1,
          storage := saveSession (storage st) (lines st) (index st + 1) (now e)\<rparr>)"
  from i nb Cons.prems have step: "copyNext e st = (Copied ?l, ?st1)"
    by (intro copyNext_copies) auto
  have l1: "lines ?st1 = lines st" and i1: "index ?st1 = index st + 1"
    by (simp_all add: updateStatus_keeps)
  from i have n1: "nat (index ?st1) = Suc ?i" unfolding i1 by simp
  have "cursor_in_range ?st1" using i by (simp add: cursor_in_range_def l1 i1)
  moreover have "\<forall>l \<in> set (drop (nat (index ?st1)) (lines ?st1)). \<not> isEmpty l"
    using Cons.prems(2) d unfolding n1 l1 by simp
  moreover have "\<forall>e \<in> set es. clipboard_works (clip e)" using Cons.prems by simp
  moreover have "length es \<le> length (lines ?st1) - nat (index ?st1)"
    using Cons.prems(4) unfolding n1 l1 by simp
  ultimately have IH: "fst (copyNext_each es ?st1)
         = map Copied (take (length es) (drop (nat (index ?st1)) (lines ?st1)))
       \<and> lines (snd (copyNext_each es ?st1)) = lines ?st1
       \<and> index (snd (copyNext_each es ?st1)) = index ?st1 + int (length es)"
    by (rule Cons.IH)
  have un: "copyNext_each (e # es) st
      = (Copied ?l # fst (copyNext_each es ?st1), snd (copyNext_each es ?st1))"
    by (simp add: step split: prod.splits)
  from i have n2: "nat (index st + 1) = Suc ?i" by simp
  show ?case
    unfolding un using IH by (simp add: d n2 updateStatus_keeps)
qed

lemma split_from_covers:
  "set cur \<union> (set s - {0x0A}) \<subseteq> set (concat (split_from cur s))"
  by (induction cur s rule: split_from.induct) auto

lemma not_blank_has_line:
  assumes "\<not> isEmpty s"
  shows "parseLines s \<noteq> []"
proof -
  from assms obtain c where c: "c \<in> set s" "\<not> is_ws c"
    by (auto simp: isEmpty_iff)
  then have "c \<noteq> 0x0A" by (auto simp: is_ws_def)
  with c split_from_covers [of "[]" s] have "c \<in> set (concat (split_nl s))"
    by (auto simp: split_nl_def)
  then obtain seg where seg: "seg \<in> set (split_nl s)" "c \<in> set seg" by auto
  with c have "trim seg \<noteq> []" by (auto simp: trim_Nil_iff)
  with seg have "trim seg \<in> set (parseLines s)" by (auto simp: parseLines_eq)
  then show ?thesis by auto
qed

lemma confirmInput_accepts:
  assumes "\<not> isEmpty (trim (inputText st))"
  shows "confirmInput e st =
     (Silent, updateStatus (st\<lparr>lines := parseLines (trim (inputText st)), index := 0,
        storage := saveSession (storage st) (parseLines (trim (inputText st))) 0 (now e),
        buttonsShown := True\<rparr>))"
  using assms not_blank_has_line [of "trim (inputText st)"]
  by (simp add: confirmInput_def Let_def)

lemma confirmInput_rejects:
  "isEmpty (trim (inputText st)) \<Longrightarrow> confirmInput e st = (Dialog ENTER_TEXT, st)"
  by (simp add: confirmInput_def Let_def)

text \<open>
  Claim C2. When the text area parses to a non-empty list of lines \<open>L\<close>,
  \<open>confirmInput\<close> sets the lines to \<open>L\<close> and the index to 0; then as many
  \<open>copyNext\<close> as \<open>L\<close> has lines, each with a working clipboard, copy the lines of
  \<open>L\<close> in their order, one each, the index after \<open>k\<close> of them being \<open>k\<close>; and one more
  \<open>copyNext\<close> shows the list-ended notice and leaves the state as it is.
\<close>

theorem confirmInput_then_copyNext_visits_every_line:
  assumes "parseLines (trim (inputText st)) \<noteq> []"
    and "length es = length (parseLines (trim (inputText st)))"
    and "\<forall>e \<in> set es. clipboard_works (clip e)"
  shows "lines (snd (confirmInput e0 st)) = parseLines (trim (inputText st))
     \<and> index (snd (confirmInput e0 st)) = 0
     \<and> fst (copyNext_each es (snd (confirmInput e0 st)))
         = map Copied (parseLines (trim (inputText st)))
     \<and> (\<forall>k \<le> length es.
          index (snd (copyNext_each (take k es) (snd (confirmInput e0 st)))) = int k)
     \<and> lines (snd (copyNext_each es (snd (confirmInput e0 st)))) = parseLines (trim (inputText st))
     \<and> copyNext e (snd (copyNext_each es (snd (confirmInput e0 st))))
         = (Dialog LIST_ENDED, snd (copyNext_each es (snd (confirmInput e0 st))))"
proof -
  let ?L = "parseLines (trim (inputText st))"
  let ?st1 = "snd (confirmInput e0 st)"
  from assms(1) have "\<not> isEmpty (trim (inputText st))"
    by (auto simp: parseLines_def)
  then have c: "confirmInput e0 st =
     (Silent, updateStatus (st\<lparr>lines := ?L, index := 0,
        storage := saveSession (storage st) ?L 0 (now e0), buttonsShown := True\<rparr>))"
    by (rule confirmInput_accepts)
  have l1: "lines ?st1 = ?L" and i1: "index ?st1 = 0"
    unfolding c by (simp_all add: updateStatus_keeps)
  have r: "cursor_in_range ?st1" by (simp add: cursor_in_range_def l1 i1)
  have nb: "\<forall>l \<in> set (drop (nat (index ?st1)) (lines ?st1)). \<not> isEmpty l"
    unfolding l1 i1 using parseLines_entry(3) by simp
  have run: "fst (copyNext_each fs ?st1) = map Copied (take (length fs) ?L)
       \<and> lines (snd (copyNext_each fs ?st1)) = ?L
       \<and> index (snd (copyNext_each fs ?st1)) = int (length fs)"
    if "set fs \<subseteq> set es" "length fs \<le> length es" for fs
  proof -
    from that assms have "\<forall>e \<in> set fs. clipboard_works (clip e)" by auto
    moreover from that assms have "length fs \<le> length (lines ?st1) - nat (index ?st1)"
      by (simp add: l1 i1)
    ultimately show ?thesis
      using copyNext_each_run [OF r nb, of fs] by (simp add: l1 i1)
  qed
  from run [of es] assms(2) have all: "fst (copyNext_each es ?st1) = map Copied ?L"
    and lend: "lines (snd (copyNext_each es ?st1)) = ?L"
    and iend: "index (snd (copyNext_each es ?st1)) = int (length ?L)"
    by simp_all
  have steps: "\<forall>k \<le> length es. index (snd (copyNext_each (take k es) ?st1)) = int k"
  proof (intro allI impI)
    fix k assume "k \<le> length es"
    with run [of "take k es"] show "index (snd (copyNext_each (take k es) ?st1)) = int k"
      by (simp add: set_take_subset min_def)
  qed
  have "copyNext e (snd (copyNext_each es ?st1)) = (Dialog LIST_ENDED, snd (copyNext_each es ?st1))"
    by (rule copyNext_exhausted) (simp add: lend iend)
  with l1 i1 all steps lend show ?thesis by simp
qed

lemma typed_page_lines: "parseLines (trim (inputText typed_page)) = [js ''a'', js ''b'', js ''c'']"
  unfolding typed_page_def fresh_page_def by code_simp

theorem confirmInput_then_copyNext_visits_every_line_witness:
  "parseLines (trim (inputText typed_page)) \<noteq> []
   \<and> length [sample_env, sample_env, sample_env] = length (parseLines (trim (inputText typed_page)))
   \<and> clipboard_works (clip sample_env)
   \<and> fst (copyNext_each [sample_env, sample_env, sample_env] (snd (confirmInput sample_env typed_page)))
       = [Copied (js ''a''), Copied (js ''b''), Copied (js ''c'')]
   \<and> copyNext sample_env
        (snd (copyNext_each [sample_env, sample_env, sample_env] (snd (confirmInput sample_env typed_page))))
       = (Dialog LIST_ENDED,
          snd (copyNext_each [sample_env, sample_env, sample_env] (snd (confirmInput sample_env typed_page))))"
proof -
  let ?es = "[sample_env, sample_env, sample_env]"
  have h1: "parseLines (trim (inputText typed_page)) \<noteq> []"
    and h2: "length ?es = length (parseLines (trim (inputText typed_page)))"
    and h3: "\<forall>e \<in> set ?es. clipboard_works (clip e)"
    by (simp_all add: typed_page_lines sample_facts)
  note t = confirmInput_then_copyNext_visits_every_line
    [OF h1 h2 h3, of sample_env sample_env]
  from t have "fst (copyNext_each ?es (snd (confirmInput sample_env typed_page)))
       = map Copied (parseLines (trim (inputText typed_page)))"
    by blast
  then have a: "fst (copyNext_each ?es (snd (confirmInput sample_env typed_page)))
       = [Copied (js ''a''), Copied (js ''b''), Copied (js ''c'')]"
    by (simp add: typed_page_lines)
  from t have b: "copyNext sample_env (snd (copyNext_each ?es (snd (confirmInput sample_env typed_page))))
       = (Dialog LIST_ENDED, snd (copyNext_each ?es (snd (confirmInput sample_env typed_page))))"
    by blast
  from h3 have c: "clipboard_works (clip sample_env)" by simp
  from h1 h2 c a b show ?thesis by blast
qed

section \<open>The cursor stays inside the lines\<close>

lemma copyNext_in_range:
  assumes "cursor_in_range st"
  shows "cursor_in_range (snd (copyNext e st))"
proof -
  let ?st = "skipEmptyLines st"
  from assms have r: "cursor_in_range ?st" by (rule skipEmptyLines_in_range)
  show ?thesis
  proof (cases "index ?st \<ge> int (length (lines ?st))")
    case True
    with r show ?thesis by (simp add: copyNext_def)
  next
    case False
    with r show ?thesis
      by (auto simp: copyNext_def Let_def cursor_in_range_def updateStatus_keeps split: sum.splits)
  qed
qed

lemma saved_in_range:
  "cursor_in_range (st\<lparr>storage := ls\<rparr>) \<longleftrightarrow> cursor_in_range st"
  by (simp add: cursor_in_range_def)

lemma copyPrev_in_range:
  assumes "cursor_in_range st"
  shows "cursor_in_range (snd (copyPrev e st))"
proof (cases "index st \<le> 0")
  case True
  with assms show ?thesis by (simp add: copyPrev_def)
next
  case False
  with assms have "cursor_in_range (st\<lparr>index := max 0 (index st - 2),
      storage := saveSession (storage st) (lines st) (max 0 (index st - 2)) (now e)\<rparr>)"
    by (simp add: cursor_in_range_def)
  then have "cursor_in_range (snd (copyNext e (st\<lparr>index := max 0 (index st - 2),
      storage := saveSession (storage st) (lines st) (max 0 (index st - 2)) (now e)\<rparr>)))"
    by (rule copyNext_in_range)
  with False show ?thesis by (simp add: copyPrev_def Let_def)
qed

lemma copyByNumber_in_range:
  assumes "cursor_in_range st"
  shows "cursor_in_range (snd (copyByNumber e d st))"
proof (cases "lines st \<noteq> [] \<and> (\<exists>v. d = PromptResult True v \<and> v \<noteq> []
    \<and> isValidLineNumber st (parseInt v))")
  case True
  then obtain v n where v: "d = PromptResult True v" "v \<noteq> []" "parseInt v = Some n"
    "1 \<le> n" "n \<le> int (length (lines st))" "lines st \<noteq> []"
    by (auto simp: isValidLineNumber_def split: option.splits)
  then have "cursor_in_range (st\<lparr>index := n - 1,
      storage := saveSession (storage st) (lines st) (n - 1) (now e)\<rparr>)"
    by (simp add: cursor_in_range_def)
  then have "cursor_in_range (snd (copyNext e (st\<lparr>index := n - 1,
      storage := saveSession (storage st) (lines st) (n - 1) (now e)\<rparr>)))"
    by (rule copyNext_in_range)
  with v show ?thesis by (simp add: copyByNumber_def Let_def isValidLineNumber_def)
next
  case False
  with assms show ?thesis
    by (auto simp: copyByNumber_def Let_def split: prompt_result.splits)
qed

lemma copyAll_in_range:
  "cursor_in_range st \<Longrightarrow> cursor_in_range (snd (copyAll e st))"
  by (auto simp: copyAll_def Let_def cursor_in_range_def split: sum.splits)

lemma resetAll_in_range: "cursor_in_range (resetAll st)"
  by (simp add: resetAll_def cursor_in_range_def)

lemma confirmInput_in_range:
  "cursor_in_range st \<Longrightarrow> cursor_in_range (snd (confirmInput e st))"
  by (cases "isEmpty (trim (inputText st))")
     (simp_all add: confirmInput_accepts confirmInput_rejects cursor_in_range_def updateStatus_keeps)

lemma loadSessionDirect_of_saved:
  assumes "fault (storage st) = None" and "items (storage st) STORAGE_KEYS_LINES =
      Some (JSONText (JObj [(js ''lines'', JArr (map JStr L)), (js ''index'', JNum i), (js ''timestamp'', JNum t)]))"
  shows "loadSessionDirect st =
     (if L = [] then Some st
      else Some (updateStatus (st\<lparr>lines := L, index := i, inputText := join_nl L,
                                    buttonsShown := True\<rparr>)))"
proof -
  from assms have "loadSession (storage st) = SessionData (JArr (map JStr L)) (JNum i)"
    by (simp add: loadSession_cases or_zero_def)
  then show ?thesis
    by (simp add: loadSessionDirect_def Let_def as_lines_strings or_zero_def del: as_lines.simps)
qed

lemma loadSessionDirect_in_range_of_saved:
  assumes "cursor_in_range st" and "fault (storage st) = None"
    and "items (storage st) STORAGE_KEYS_LINES =
      Some (JSONText (JObj [(js ''lines'', JArr (map JStr L)), (js ''index'', JNum i), (js ''timestamp'', JNum t)]))"
    and "0 \<le> i" "i \<le> int (length L)"
  shows "cursor_in_range (the (loadSessionDirect st))"
  using assms
  by (simp add: loadSessionDirect_of_saved [OF assms(2,3)] cursor_in_range_def updateStatus_keeps)

text \<open>
  Claim C1. Every action on the page keeps the index between 0 and the number of lines
  (the lemmas above), but \<open>loadSessionDirect\<close> takes the stored index as it is: from a
  stored record of one line with index 5 the state has one line and index 5.
\<close>

theorem loadSessionDirect_takes_stored_index_unchecked:
  "cursor_in_range stale_page
   \<and> loadSessionDirect stale_page \<noteq> None
   \<and> lines (the (loadSessionDirect stale_page)) = [js ''a'']
   \<and> index (the (loadSessionDirect stale_page)) = 5
   \<and> progressFill (the (loadSessionDirect stale_page)) = 500
   \<and> \<not> cursor_in_range (the (loadSessionDirect stale_page))"
proof -
  have s: "fault (storage stale_page) = None"
    "items (storage stale_page) STORAGE_KEYS_LINES =
      Some (JSONText (JObj [(js ''lines'', JArr (map JStr [js ''a''])), (js ''index'', JNum 5),
                            (js ''timestamp'', JNum 0)]))"
    by (simp_all add: stale_page_def fresh_page_def)
  have p: "percent_of 5 (Suc 0) = 500" by code_simp
  have "loadSessionDirect stale_page =
      Some (updateStatus (stale_page\<lparr>lines := [js ''a''], index := 5, inputText := join_nl [js ''a''],
                                    buttonsShown := True\<rparr>))"
    using loadSessionDirect_of_saved [OF s] by simp
  moreover have "cursor_in_range stale_page"
    by (simp add: cursor_in_range_def stale_page_def fresh_page_def)
  ultimately show ?thesis
    by (simp add: cursor_in_range_def updateStatus_keeps updateStatus_def Let_def p)
qed

section \<open>The progress display\<close>

lemma pow2_power_int: "pow2 e = 2 powi e"
  by (simp add: pow2_def power_int_def inverse_eq_divide power_one_over)

lemma pow2_pos: "0 < pow2 e"
  by (simp add: pow2_power_int)

lemma pow2_mono: "a \<le> b \<Longrightarrow> pow2 a \<le> pow2 b"
  by (simp add: pow2_power_int power_int_increasing)

lemma round_half_even_error: "\<bar>of_int (round_half_even m) - m\<bar> \<le> 1 / 2"
proof -
  have "of_int \<lfloor>m\<rfloor> \<le> m" "m < of_int \<lfloor>m\<rfloor> + 1" by linarith+
  then show ?thesis
    by (auto simp: round_half_even_def Let_def abs_le_iff)
qed

lemma round_half_even_nonneg: "0 \<le> m \<Longrightarrow> 0 \<le> round_half_even m"
  by (auto simp: round_half_even_def Let_def)

lemma binary64_nonneg: "0 \<le> x \<Longrightarrow> 0 \<le> binary64 x"
  by (auto simp: binary64_def Let_def pow2_pos less_imp_le intro!: mult_nonneg_nonneg
      round_half_even_nonneg divide_nonneg_pos)

lemma percent_of_nonneg: "0 \<le> i \<Longrightarrow> 0 \<le> percent_of i n"
proof -
  assume "0 \<le> i"
  then have "0 \<le> js_div (of_int i) (of_nat n)"
    unfolding js_div_def by (intro binary64_nonneg) simp
  then have "0 \<le> js_mul (js_div (of_int i) (of_nat n)) 100"
    unfolding js_mul_def by (intro binary64_nonneg) simp
  then show ?thesis by (simp add: percent_of_def Math_round_def)
qed

lemma Math_round_Math_floor:
  "Math_floor x \<le> Math_round x"
  "Math_round x \<le> Math_floor x + 1"
  "Math_round x = Math_floor x + 1 \<longleftrightarrow> 1 / 2 \<le> x - of_int (Math_floor x)"
  unfolding Math_round_def Math_floor_def by linarith+

lemma exponent_less:
  assumes "0 < y" "y < 2 ^ k"
  shows "exponent y < int k"
proof (cases "1 \<le> y")
  case True
  then have "0 \<le> \<lfloor>y\<rfloor>" by simp
  from assms have "\<lfloor>y\<rfloor> < 2 ^ k" by (simp add: floor_less_iff)
  with \<open>0 \<le> \<lfloor>y\<rfloor>\<close> have "nat \<lfloor>y\<rfloor> < 2 ^ k" by (simp add: nat_less_iff)
  then have "floorlog 2 (nat \<lfloor>y\<rfloor>) \<le> k" by (intro floorlog_leI) simp_all
  with True show ?thesis by (simp add: exponent_def)
next
  case False
  with assms have "1 < 1 / y" by simp
  then have "1 < \<lceil>1 / y\<rceil>" by (simp add: less_ceiling_iff)
  then have "0 < nat (\<lceil>1 / y\<rceil> - 1)" by simp
  then have "floorlog 2 (nat (\<lceil>1 / y\<rceil> - 1)) \<noteq> 0"
    by (simp add: floorlog_eq_zero_iff)
  with False show ?thesis by (simp add: exponent_def)
qed

lemma binary64_error:
  assumes "0 \<le> y" "y < 2 ^ k"
  shows "\<bar>binary64 y - y\<bar> \<le> 2 ^ k / 2 ^ 53"
proof (cases "y = 0")
  case True
  then show ?thesis by (simp add: binary64_def)
next
  case False
  with assms have pos: "0 < y" by simp
  let ?e = "max (exponent y) (- 1022)"
  let ?ulp = "pow2 (?e - 52)"
  have u: "0 < ?ulp" by (rule pow2_pos)
  from pos assms have "exponent y < int k" by (intro exponent_less)
  then have "?e - 52 \<le> int k - 53" by simp
  then have "?ulp \<le> pow2 (int k - 53)" by (rule pow2_mono)
  also have "pow2 (int k - 53) = 2 ^ k / 2 ^ 53"
    by (simp add: pow2_power_int power_int_diff)
  finally have ub: "?ulp \<le> 2 ^ k / 2 ^ 53" .
  have b: "binary64 y = of_int (round_half_even (y / ?ulp)) * ?ulp"
    using pos by (simp add: binary64_def Let_def)
  have "binary64 y - y = (of_int (round_half_even (y / ?ulp)) - y / ?ulp) * ?ulp"
    using u by (simp add: b field_simps)
  then have "\<bar>binary64 y - y\<bar> = \<bar>of_int (round_half_even (y / ?ulp)) - y / ?ulp\<bar> * ?ulp"
    using u by (simp add: abs_mult)
  also have "\<dots> \<le> 1 / 2 * ?ulp"
    using u round_half_even_error [of "y / ?ulp"] by (intro mult_right_mono) simp_all
  also have "\<dots> \<le> ?ulp" using u by simp
  finally show ?thesis using ub by simp
qed

lemma percent_of_near_quotient:
  assumes "0 \<le> i" "i \<le> int n" "0 < n"
  shows "\<bar>js_mul (js_div (of_int i) (of_nat n)) 100 - of_int i / of_nat n * 100\<bar> < 1 / 2"
proof -
  let ?y1 = "of_int i / of_nat n :: rat"
  let ?x1 = "js_div (of_int i) (of_nat n)"
  from assms have y1: "0 \<le> ?y1" "?y1 \<le> 1" by (simp_all add: divide_le_eq_1)
  then have "?y1 < 2 ^ 1" by simp
  with y1 have e1: "\<bar>?x1 - ?y1\<bar> \<le> 2 ^ 1 / 2 ^ 53"
    unfolding js_div_def by (intro binary64_error)
  from y1 have x1: "0 \<le> ?x1" unfolding js_div_def by (intro binary64_nonneg)
  from e1 have "?x1 \<le> ?y1 + 2 ^ 1 / 2 ^ 53" by linarith
  with y1 have "?x1 \<le> 1 + 2 ^ 1 / 2 ^ 53" by linarith
  then have "?x1 * 100 \<le> (1 + 2 ^ 1 / 2 ^ 53) * 100" by (intro mult_right_mono) simp_all
  also have "\<dots> < 2 ^ 7" by simp
  finally have "?x1 * 100 < 2 ^ 7" .
  moreover from x1 have "0 \<le> ?x1 * 100" by simp
  ultimately have e2: "\<bar>js_mul ?x1 100 - ?x1 * 100\<bar> \<le> 2 ^ 7 / 2 ^ 53"
    unfolding js_mul_def by (intro binary64_error)
  have "js_mul ?x1 100 - ?y1 * 100 = (js_mul ?x1 100 - ?x1 * 100) + (?x1 - ?y1) * 100"
    by (simp add: algebra_simps)
  then have "\<bar>js_mul ?x1 100 - ?y1 * 100\<bar>
      \<le> \<bar>js_mul ?x1 100 - ?x1 * 100\<bar> + \<bar>(?x1 - ?y1) * 100\<bar>"
    by (simp only: abs_triangle_ineq)
  also have "\<bar>(?x1 - ?y1) * 100\<bar> = \<bar>?x1 - ?y1\<bar> * 100"
    by (simp only: abs_mult abs_numeral)
  finally have "\<bar>js_mul ?x1 100 - ?y1 * 100\<bar> \<le> \<bar>js_mul ?x1 100 - ?x1 * 100\<bar> + \<bar>?x1 - ?y1\<bar> * 100" .
  also have "\<dots> \<le> 2 ^ 7 / 2 ^ 53 + 2 ^ 1 / 2 ^ 53 * 100"
    using e1 e2 by (intro add_mono mult_right_mono) simp_all
  also have "\<dots> < 1 / 2" by simp
  finally show ?thesis .
qed


text \<open>
  Claim C6, as the code has it. With lines present, the per cent is
  \<open>Math.round((index / lines.length) * 100)\<close> in the arithmetic of Numbers, and the
  bar takes it as its width unless it is negative, so always when the index is not
  negative. The per cent is \<open>Math.floor\<close> of the same Number or one more, one more
  exactly when the fraction of the Number is a half or more; and with the index
  between 0 and the number of lines it is the floor of the exact quotient or one more.
\<close>

theorem updateStatus_percent_is_rounded:
  assumes "lines st \<noteq> []"
  shows "progressFill (updateStatus st)
           = (if percent_of (index st) (length (lines st)) < 0 then progressFill st
              else percent_of (index st) (length (lines st)))
       \<and> (0 \<le> index st \<longrightarrow>
            progressFill (updateStatus st)
              = Math_round (js_mul (js_div (of_int (index st)) (of_nat (length (lines st)))) 100))
       \<and> percent_of (index st) (length (lines st))
           = Math_round (js_mul (js_div (of_int (index st)) (of_nat (length (lines st)))) 100)
       \<and> Math_floor (js_mul (js_div (of_int (index st)) (of_nat (length (lines st)))) 100)
           \<le> percent_of (index st) (length (lines st))
       \<and> percent_of (index st) (length (lines st))
           \<le> Math_floor (js_mul (js_div (of_int (index st)) (of_nat (length (lines st)))) 100) + 1
       \<and> (percent_of (index st) (length (lines st))
             = Math_floor (js_mul (js_div (of_int (index st)) (of_nat (length (lines st)))) 100) + 1
           \<longleftrightarrow> 1 / 2 \<le> js_mul (js_div (of_int (index st)) (of_nat (length (lines st)))) 100
                 - of_int (Math_floor (js_mul (js_div (of_int (index st)) (of_nat (length (lines st)))) 100)))
       \<and> (0 \<le> index st \<and> index st \<le> int (length (lines st)) \<longrightarrow>
            \<lfloor>rat_of_int (index st) / rat_of_nat (length (lines st)) * 100\<rfloor>
              \<le> progressFill (updateStatus st)
            \<and> progressFill (updateStatus st)
              \<le> \<lfloor>rat_of_int (index st) / rat_of_nat (length (lines st)) * 100\<rfloor> + 1)"
proof -
  let ?n = "length (lines st)"
  let ?x = "js_mul (js_div (of_int (index st)) (of_nat ?n)) 100"
  let ?q = "rat_of_int (index st) / rat_of_nat ?n * 100"
  let ?P = "percent_of (index st) ?n"
  from assms have n: "0 < ?n" by simp
  then have shown: "progressFill (updateStatus st) = (if ?P < 0 then progressFill st else ?P)"
    by (simp add: updateStatus_def Let_def)
  have P: "?P = Math_round ?x" by (simp add: percent_of_def)
  have nonneg: "progressFill (updateStatus st) = ?P" if "0 \<le> index st"
    using that percent_of_nonneg [of "index st" ?n] shown by simp
  have exact: "\<lfloor>?q\<rfloor> \<le> progressFill (updateStatus st)
      \<and> progressFill (updateStatus st) \<le> \<lfloor>?q\<rfloor> + 1"
    if r: "0 \<le> index st \<and> index st \<le> int ?n"
  proof -
    from r n have "\<bar>?x - ?q\<bar> < 1 / 2" by (intro percent_of_near_quotient) simp_all
    then have lo: "?q \<le> ?x + 1 / 2" and hi: "?x + 1 / 2 < ?q + 1" by linarith+
    from lo have "\<lfloor>?q\<rfloor> \<le> \<lfloor>?x + 1 / 2\<rfloor>" by (rule floor_mono)
    moreover from hi have "\<lfloor>?x + 1 / 2\<rfloor> \<le> \<lfloor>?q + 1\<rfloor>" by (intro floor_mono) simp
    ultimately show ?thesis
      using r by (simp add: nonneg P Math_round_def)
  qed
  show ?thesis
  proof (intro conjI impI)
    show "progressFill (updateStatus st) = (if ?P < 0 then progressFill st else ?P)"
      by (rule shown)
    show "progressFill (updateStatus st) = Math_round ?x" if "0 \<le> index st"
      using nonneg [OF that] P by simp
    show "?P = Math_round ?x" by (rule P)
    show "Math_floor ?x \<le> ?P" unfolding P by (rule Math_round_Math_floor)
    show "?P \<le> Math_floor ?x + 1" unfolding P by (rule Math_round_Math_floor)
    show "?P = Math_floor ?x + 1 \<longleftrightarrow> 1 / 2 \<le> ?x - of_int (Math_floor ?x)"
      unfolding P by (rule Math_round_Math_floor)
    show "\<lfloor>?q\<rfloor> \<le> progressFill (updateStatus st)"
      if "0 \<le> index st \<and> index st \<le> int ?n"
      using exact [OF that] by blast
    show "progressFill (updateStatus st) \<le> \<lfloor>?q\<rfloor> + 1"
      if "0 \<le> index st \<and> index st \<le> int ?n"
      using exact [OF that] by blast
  qed
qed

lemma percent_samples:
  "percent_of 2 3 = 67" "percent_of 23 40 = 57" "percent_of 29 200 = 14" "percent_of 1 8 = 13"
  by code_simp+

theorem updateStatus_percent_is_rounded_witness:
  "lines sample_session \<noteq> [] \<and> 0 \<le> index sample_session
   \<and> index sample_session \<le> int (length (lines sample_session))
   \<and> progressFill (updateStatus sample_session) = 67
   \<and> lines (fresh_page\<lparr>lines := replicate 40 (js ''x''), index := 23\<rparr>) \<noteq> []
   \<and> progressFill (updateStatus (fresh_page\<lparr>lines := replicate 40 (js ''x''), index := 23\<rparr>)) = 57"
proof -
  let ?t = "fresh_page\<lparr>lines := replicate 40 (js ''x''), index := 23\<rparr>"
  have h: "lines sample_session \<noteq> []" "0 \<le> index sample_session"
    "index sample_session \<le> int (length (lines sample_session))"
    by (simp_all add: sample_facts)
  have g: "lines ?t \<noteq> []" "0 \<le> index ?t" by simp_all
  from updateStatus_percent_is_rounded [OF h(1)] h(2)
  have "progressFill (updateStatus sample_session)
      = Math_round (js_mul (js_div (of_int (index sample_session))
                                   (of_nat (length (lines sample_session)))) 100)"
    by blast
  then have a: "progressFill (updateStatus sample_session) = 67"
    using percent_samples(1) by (simp add: sample_facts percent_of_def)
  from updateStatus_percent_is_rounded [OF g(1)] g(2)
  have "progressFill (updateStatus ?t)
      = Math_round (js_mul (js_div (of_int (index ?t)) (of_nat (length (lines ?t)))) 100)"
    by blast
  then have b: "progressFill (updateStatus ?t) = 57"
    using percent_samples(2) by (simp add: percent_of_def)
  from h g(1) a b show ?thesis by blast
qed

text \<open>
  The claim C6 as it was stated, with the floor, fails: with two of three lines copied
  the bar is 67 per cent wide, and the floor is 66, of the Number as of the exact
  quotient.
\<close>

theorem updateStatus_percent_not_floor:
  "progressFill (updateStatus sample_session)
     \<noteq> Math_floor (js_mul (js_div (of_int (index sample_session))
                                 (of_nat (length (lines sample_session)))) 100)
   \<and> progressFill (updateStatus sample_session)
     \<noteq> \<lfloor>rat_of_int (index sample_session) / rat_of_nat (length (lines sample_session)) * 100\<rfloor>"
proof -
  have p: "percent_of 2 3 = 67" by code_simp
  have f: "Math_floor (js_mul (js_div (of_int 2) (of_nat 3)) 100) = 66" by code_simp
  have e: "\<lfloor>rat_of_int 2 / rat_of_nat 3 * 100\<rfloor> = (66 :: int)" by code_simp
  have n: "length (lines sample_session) = 3" by (simp add: sample_facts)
  have "progressFill (updateStatus sample_session) = 67"
    by (simp add: updateStatus_def Let_def n sample_facts(2) p)
  moreover have "Math_floor (js_mul (js_div (of_int (index sample_session))
                                 (of_nat (length (lines sample_session)))) 100) = 66"
    using f by (simp add: sample_facts)
  moreover have "\<lfloor>rat_of_int (index sample_session) / rat_of_nat (length (lines sample_session)) * 100\<rfloor>
      = (66 :: int)"
    using e by (simp add: n sample_facts(2))
  ultimately show ?thesis by simp
qed

section \<open>Copying all lines\<close>

text \<open>
  Claim C10. With lines present, \<open>copyAll\<close> leaves the lines, the index and the storage
  as they are: when the clipboard takes the lines joined by line feeds, only the
  clipboard changes, to that text; when the copy fails, nothing changes.
\<close>

theorem copyAll_leaves_session:
  assumes "lines st \<noteq> []"
  shows "lines (snd (copyAll e st)) = lines st
       \<and> index (snd (copyAll e st)) = index st
       \<and> storage (snd (copyAll e st)) = storage st
       \<and> (case copy (clip e) (join_nl (lines st)) of
            Inr m \<Rightarrow> copyAll e st = (Dialog COPY_ALL_SUCCESS, st\<lparr>clipboard := join_nl (lines st)\<rparr>)
          | Inl err \<Rightarrow> copyAll e st = (handleCopyError err, st))"
  using assms by (simp add: copyAll_def Let_def split: sum.splits)

theorem copyAll_leaves_session_witness:
  "lines sample_session \<noteq> []
   \<and> copyAll sample_env sample_session
       = (Dialog COPY_ALL_SUCCESS,
          sample_session\<lparr>clipboard := (js ''a\<newline>b\<newline>c'')\<rparr>)
   \<and> storage (snd (copyAll sample_env sample_session)) = storage sample_session
   \<and> index (snd (copyAll sample_env sample_session)) = 2"
proof -
  have h: "lines sample_session \<noteq> []" by (simp add: sample_facts)
  have c: "copy (clip sample_env) (join_nl (lines sample_session)) = Inr ByClipboardAPI"
    by (simp add: sample_facts copy_def sample_env_def)
  have j: "join_nl (lines sample_session) = js ''a\<newline>b\<newline>c''"
    by (simp add: sample_facts js_def)
  from copyAll_leaves_session [OF h, of sample_env] c
  have "copyAll sample_env sample_session
      = (Dialog COPY_ALL_SUCCESS, sample_session\<lparr>clipboard := join_nl (lines sample_session)\<rparr>)"
    and "storage (snd (copyAll sample_env sample_session)) = storage sample_session"
    and "index (snd (copyAll sample_env sample_session)) = index sample_session"
    by simp_all
  with h j show ?thesis by (simp add: sample_facts)
qed

end
